theory Spec2Isabelle
  imports Complex_Main "HOL-Library.AList"
begin

section \<open>Python values met by the web UI\<close>

text \<open>
  The values that Streamlit widgets put into \<^verbatim>\<open>st.session_state\<close> and that the
  configuration code of \<^verbatim>\<open>src/subsai/webui.py\<close> handles: \<^verbatim>\<open>None\<close>, booleans,
  unbounded integers, floats and strings. The payload of a float is the type
  parameter \<open>'f\<close>: nothing below computes with floats, it only converts to and from them.
\<close>

datatype 'f pyval = PyNone | PyBool bool | PyInt int | PyFloat 'f | PyStr string

text \<open>
  The class stored under \<^verbatim>\<open>'type'\<close> in a schema entry. The code compares it with
  \<^verbatim>\<open>str\<close>, \<^verbatim>\<open>list\<close>, \<^verbatim>\<open>float\<close>, \<^verbatim>\<open>int\<close> and \<^verbatim>\<open>bool\<close>;
  \<open>T_other\<close> is any other class.
\<close>

datatype pytype = T_str | T_list | T_float | T_int | T_bool | T_other

text \<open>
  One entry of a configuration schema, with the four keys that
  \<^verbatim>\<open>src/subsai/configs.py\<close> gives every entry. \<open>options = None\<close> is Python's
  \<^verbatim>\<open>'options': None\<close>.
\<close>

record 'f param_spec =
  ptype :: pytype
  description :: string
  options :: "'f pyval list option"
  default :: "'f pyval"

text \<open>
  A schema is a Python dict, iterated in insertion order: a list of (name, entry) pairs.
  A resolved configuration is the dict \<^verbatim>\<open>model_config\<close>, again in insertion order.
  The session state is read by key only, so it is a map.
\<close>

type_synonym 'f config_schema = "(string \<times> 'f param_spec) list"
type_synonym 'f model_config = "(string \<times> 'f pyval) list"
type_synonym 'f session_state = "string \<rightharpoonup> 'f pyval"

subsection \<open>The built-in conversions \<^verbatim>\<open>int()\<close> and \<^verbatim>\<open>float()\<close>\<close>

text \<open>
  An exception raised by a conversion: its class, the conversion that raised it and the
  argument it was applied to. The text of the exception (which the UI shows) is built
  from these three and from nothing else.
\<close>

datatype exc_class = ValueError | TypeError | OverflowError

datatype conversion = To_float | To_int

datatype 'f py_exception = Raised exc_class conversion "'f pyval"

text \<open>
  What the interpreter does inside the two conversions is not part of the repository:
  parsing a string, rounding an integer to a float (\<open>None\<close>: \<^verbatim>\<open>OverflowError\<close>) and
  truncating a float (which raises on infinities and NaN). These four operations are
  parameters of the model; every general theorem below holds for all of them.
\<close>

record 'f builtins =
  int_of_str :: "string \<Rightarrow> int option"
  float_of_str :: "string \<Rightarrow> 'f option"
  float_of_int :: "int \<Rightarrow> 'f option"
  int_of_float :: "'f \<Rightarrow> exc_class + int"

fun py_float :: "'f builtins \<Rightarrow> 'f pyval \<Rightarrow> 'f py_exception + 'f pyval" where
  "py_float B (PyFloat x) = Inr (PyFloat x)"
| "py_float B (PyInt i) =
     (case float_of_int B i of
        None \<Rightarrow> Inl (Raised OverflowError To_float (PyInt i))
      | Some x \<Rightarrow> Inr (PyFloat x))"
| "py_float B (PyBool b) =
     (case float_of_int B (if b then 1 else 0) of
        None \<Rightarrow> Inl (Raised OverflowError To_float (PyBool b))
      | Some x \<Rightarrow> Inr (PyFloat x))"
| "py_float B (PyStr s) =
     (case float_of_str B s of
        None \<Rightarrow> Inl (Raised ValueError To_float (PyStr s))
      | Some x \<Rightarrow> Inr (PyFloat x))"
| "py_float B PyNone = Inl (Raised TypeError To_float PyNone)"

fun py_int :: "'f builtins \<Rightarrow> 'f pyval \<Rightarrow> 'f py_exception + 'f pyval" where
  "py_int B (PyInt i) = Inr (PyInt i)"
| "py_int B (PyBool b) = Inr (PyInt (if b then 1 else 0))"
| "py_int B (PyFloat x) =
     (case int_of_float B x of
        Inl c \<Rightarrow> Inl (Raised c To_int (PyFloat x))
      | Inr i \<Rightarrow> Inr (PyInt i))"
| "py_int B (PyStr s) =
     (case int_of_str B s of
        None \<Rightarrow> Inl (Raised ValueError To_int (PyStr s))
      | Some i \<Rightarrow> Inr (PyInt i))"
| "py_int B PyNone = Inl (Raised TypeError To_int PyNone)"

subsection \<open>A sample of the built-ins, for evaluating examples\<close>

text \<open>
  Closed examples need the four operations at concrete arguments. The sample takes the
  rationals for floats and parses a string made of an optional sign and one or more
  ASCII digits; any other string is rejected. It agrees with the interpreter on such
  numerals (up to \<open>2 ^ 53\<close> in absolute value, where a float is exact) and on the
  string "abc", which are the only arguments the examples use. It is not the
  interpreter elsewhere: it rejects strings that the interpreter parses, such as
  " 42", "1_000", "1.5", "1e3", "inf" and "nan".
\<close>

definition digit_of :: "char \<Rightarrow> nat option" where
  "digit_of c =
     (let n = (of_char c :: nat) in if 48 \<le> n \<and> n \<le> 57 then Some (n - 48) else None)"

fun digits_from :: "nat \<Rightarrow> string \<Rightarrow> nat option" where
  "digits_from acc [] = Some acc"
| "digits_from acc (c # cs) =
     (case digit_of c of None \<Rightarrow> None | Some d \<Rightarrow> digits_from (10 * acc + d) cs)"

definition unsigned_literal :: "string \<Rightarrow> nat option" where
  "unsigned_literal s = (if s = [] then None else digits_from 0 s)"

definition sample_int_of_str :: "string \<Rightarrow> int option" where
  "sample_int_of_str s =
     (case s of
        [] \<Rightarrow> None
      | c # cs \<Rightarrow>
          if c = CHR ''-'' then map_option (\<lambda>n. - int n) (unsigned_literal cs)
          else if c = CHR ''+'' then map_option int (unsigned_literal cs)
          else map_option int (unsigned_literal s))"

definition sample_builtins :: "rat builtins" where
  "sample_builtins =
     \<lparr> int_of_str = sample_int_of_str,
       float_of_str = (\<lambda>s. map_option of_int (sample_int_of_str s)),
       float_of_int = (\<lambda>i. Some (of_int i)),
       int_of_float = (\<lambda>q. Inr (if 0 \<le> q then \<lfloor>q\<rfloor> else \<lceil>q\<rceil>)) \<rparr>"

section \<open>Configuration keys and coercion\<close>

text \<open>\<^verbatim>\<open>_get_key\<close> (webui.py, lines 41-49): \<^verbatim>\<open>model_name + '-' + config_name\<close>.\<close>

definition get_key :: "string \<Rightarrow> string \<Rightarrow> string" where
  "get_key model_name config_name = model_name @ ''-'' @ config_name"

text \<open>
  The \<^verbatim>\<open>if\<close>/\<^verbatim>\<open>elif\<close> chain of \<^verbatim>\<open>_get_config_from_session_state\<close>
  (lines 106-118) applied to the value read from the session state. A comparison
  \<^verbatim>\<open>value == 'None'\<close> holds for the string \<^verbatim>\<open>'None'\<close> only. For a type that is
  none of \<^verbatim>\<open>str\<close>, \<^verbatim>\<open>float\<close>, \<^verbatim>\<open>int\<close> no branch is taken and the value is
  kept.
\<close>

definition coerce :: "'f builtins \<Rightarrow> pytype \<Rightarrow> 'f pyval \<Rightarrow> 'f py_exception + 'f pyval" where
  "coerce B ty v =
     (if ty = T_str then
        (if v = PyStr ''None'' \<or> v = PyStr '''' then Inr PyNone else Inr v)
      else if ty = T_float then
        (if v = PyStr ''None'' \<or> v = PyStr '''' then Inr PyNone else py_float B v)
      else if ty = T_int then
        (if v = PyStr ''None'' \<or> v = PyStr '''' then Inr PyNone else py_int B v)
      else Inr v)"

text \<open>
  The loop of \<^verbatim>\<open>_get_config_from_session_state\<close> (lines 102-125), with the
  dict \<^verbatim>\<open>model_config\<close> built so far as the accumulator. A key missing from the
  session state raises \<^verbatim>\<open>KeyError\<close>, which the code catches and passes: the parameter
  is skipped. Any other exception is shown in the notification placeholder and the
  function returns \<^verbatim>\<open>None\<close>: the result \<open>Inl e\<close>, where \<open>e\<close> is the exception that
  the notification prints. \<open>Inr\<close> is the returned dict.
\<close>

fun config_loop ::
  "'f builtins \<Rightarrow> string \<Rightarrow> 'f config_schema \<Rightarrow> 'f session_state \<Rightarrow> 'f model_config
     \<Rightarrow> 'f py_exception + 'f model_config" where
  "config_loop B model_name [] st model_config = Inr model_config"
| "config_loop B model_name ((config_name, spec) # rest) st model_config =
     (case st (get_key model_name config_name) of
        None \<Rightarrow> config_loop B model_name rest st model_config
      | Some v \<Rightarrow>
          (case coerce B (ptype spec) v of
             Inl e \<Rightarrow> Inl e
           | Inr v' \<Rightarrow>
               config_loop B model_name rest st (AList.update config_name v' model_config)))"

definition get_config_from_session_state ::
  "'f builtins \<Rightarrow> string \<Rightarrow> 'f config_schema \<Rightarrow> 'f session_state
     \<Rightarrow> 'f py_exception + 'f model_config" where
  "get_config_from_session_state B model_name config_schema st =
     config_loop B model_name config_schema st []"


text \<open>
  Feeding a resolved configuration back as raw input: each value is stored in a session
  state under the key of its parameter.
\<close>

definition raw_of_config :: "string \<Rightarrow> 'f model_config \<Rightarrow> 'f session_state" where
  "raw_of_config model_name model_config =
     map_of (map (\<lambda>(config_name, v). (get_key model_name config_name, v)) model_config)"

text \<open>
  The constraint that a raw value has to satisfy for its parameter, in the words of the
  specification (section 4.1), for comparison with what the code accepts: a text
  parameter takes a string; an integer or real parameter takes the strings "None" and
  "", or a value that parses to the numeric type; a boolean parameter takes a boolean;
  an enumerated choice takes a member of \<open>options\<close>. A parameter that has no raw
  value is not constrained.
\<close>

definition satisfies_constraint :: "'f builtins \<Rightarrow> 'f param_spec \<Rightarrow> 'f pyval \<Rightarrow> bool" where
  "satisfies_constraint B spec v =
     (case ptype spec of
        T_str \<Rightarrow> (case v of PyStr s \<Rightarrow> True | _ \<Rightarrow> False)
      | T_int \<Rightarrow> v = PyStr ''None'' \<or> v = PyStr '''' \<or> isl (py_int B v) = False
      | T_float \<Rightarrow> v = PyStr ''None'' \<or> v = PyStr '''' \<or> isl (py_float B v) = False
      | T_bool \<Rightarrow> (case v of PyBool b \<Rightarrow> True | _ \<Rightarrow> False)
      | T_list \<Rightarrow> (case options spec of None \<Rightarrow> False | Some os \<Rightarrow> v \<in> set os)
      | T_other \<Rightarrow> True)"

definition satisfies_constraints ::
  "'f builtins \<Rightarrow> string \<Rightarrow> 'f config_schema \<Rightarrow> 'f session_state \<Rightarrow> bool" where
  "satisfies_constraints B model_name config_schema st =
     list_all (\<lambda>(config_name, spec).
        case st (get_key model_name config_name) of
          None \<Rightarrow> True
        | Some v \<Rightarrow> satisfies_constraint B spec v) config_schema"

text \<open>
  A numeric parameter is unset in a raw input when its raw value is one of the two
  strings that the coercion turns into \<^verbatim>\<open>None\<close>.
\<close>

definition numeric_unset :: "string \<Rightarrow> 'f config_schema \<Rightarrow> 'f session_state \<Rightarrow> bool" where
  "numeric_unset model_name config_schema st =
     list_ex (\<lambda>(config_name, spec).
        (ptype spec = T_int \<or> ptype spec = T_float)
        \<and> (st (get_key model_name config_name) = Some (PyStr ''None'')
           \<or> st (get_key model_name config_name) = Some (PyStr ''''))) config_schema"

subsection \<open>Two schemas for examples\<close>

text \<open>
  The schema of the tool \<^verbatim>\<open>'shift'\<close> in \<^verbatim>\<open>BASIC_TOOLS_CONFIGS\<close>
  (\<^verbatim>\<open>src/subsai/configs.py\<close>, lines 112-153), and the schema of the example scenario
  in section 8 of the specification.
\<close>

definition shift_schema :: "rat config_schema" where
  "shift_schema =
     [(''h'', \<lparr> ptype = T_float,
         description = ''hours: Integer or float values, may be positive or negative'',
         options = None, default = PyInt 0 \<rparr>),
      (''m'', \<lparr> ptype = T_float,
         description = ''minutes: Integer or float values, may be positive or negative'',
         options = None, default = PyInt 0 \<rparr>),
      (''s'', \<lparr> ptype = T_float,
         description = ''seconds: Integer or float values, may be positive or negative'',
         options = None, default = PyInt 0 \<rparr>),
      (''ms'', \<lparr> ptype = T_float,
         description = ''milliseconds: Integer or float values, may be positive or negative'',
         options = None, default = PyInt 0 \<rparr>),
      (''frames'', \<lparr> ptype = T_int,
         description = ''When specified, must be an integer number of frames'',
         options = None, default = PyNone \<rparr>),
      (''fps'', \<lparr> ptype = T_float,
         description = ''When specified, must be a positive number.'',
         options = None, default = PyNone \<rparr>)]"

definition frames_spec :: "rat param_spec" where
  "frames_spec =
     \<lparr> ptype = T_int, description = ''When specified, must be an integer number of frames'',
       options = None, default = PyNone \<rparr>"

definition model_type_spec :: "rat param_spec" where
  "model_type_spec =
     \<lparr> ptype = T_list, description = ''model size'',
       options = Some [PyStr ''tiny'', PyStr ''base'', PyStr ''small''],
       default = PyStr ''base'' \<rparr>"

definition whisper_schema :: "rat config_schema" where
  "whisper_schema = [(''model_type'', model_type_spec)]"

section \<open>Memoized functions\<close>

text \<open>
  \<^verbatim>\<open>webui.py\<close> puts the decorator \<^verbatim>\<open>st.cache_data\<close> on \<^verbatim>\<open>_transcribe\<close> and
  \<^verbatim>\<open>st.cache_resource\<close> on \<^verbatim>\<open>_create_translation_model\<close>. A cache holds the
  stored values by key. The wrapped function reads files, loads models and calls
  services, so its result may differ from one run to the next: it takes the number of
  runs made so far as a further argument, and \<open>runs\<close> logs every run of the wrapped
  function with its key and whether it returned a value.
\<close>

record ('k, 'v) memo =
  entries :: "'k \<rightharpoonup> 'v"
  runs :: "('k \<times> bool) list"

definition empty_memo :: "('k, 'v) memo" where
  "empty_memo = \<lparr> entries = Map.empty, runs = [] \<rparr>"

text \<open>
  Modelled from the spec: the two decorators belong to Streamlit and are not under
  src/. Sections 4.3 and 4.5 of the specification: a key is built from the arguments;
  if an entry exists for the key, the stored value is returned and the wrapped function
  is not invoked; otherwise it is invoked, and its result is stored under the key and
  returned; a failure is not stored; no entry expires. \<open>key_of\<close> builds the key.
\<close>

definition cached ::
  "('a \<Rightarrow> 'k) \<Rightarrow> (nat \<Rightarrow> 'a \<Rightarrow> 'e + 'v) \<Rightarrow> 'a \<Rightarrow> ('k, 'v) memo
     \<Rightarrow> ('e + 'v) \<times> ('k, 'v) memo" where
  "cached key_of body args s =
     (case entries s (key_of args) of
        Some v \<Rightarrow> (Inr v, s)
      | None \<Rightarrow>
          (case body (length (runs s)) args of
             Inl e \<Rightarrow> (Inl e, s\<lparr> runs := runs s @ [(key_of args, False)] \<rparr>)
           | Inr v \<Rightarrow>
               (Inr v, s\<lparr> entries := (entries s)(key_of args \<mapsto> v),
                          runs := runs s @ [(key_of args, True)] \<rparr>)))"

text \<open>
  What holds of a cache at any time: a run that returned a value left an entry under its
  key, and no key has more than one such run.
\<close>

definition memo_ok :: "('k, 'v) memo \<Rightarrow> bool" where
  "memo_ok s =
     (\<forall>k. ((k, True) \<in> set (runs s) \<longrightarrow> entries s k \<noteq> None)
          \<and> count_list (runs s) (k, True) \<le> 1)"

section \<open>Subtitles\<close>

text \<open>
  An event of a subtitle file as the web UI uses it (\<^verbatim>\<open>sub.start\<close>, \<^verbatim>\<open>sub.end\<close>,
  \<^verbatim>\<open>sub.text\<close>; times in milliseconds), and a subtitle file as the sequence of its
  events.
\<close>

record ssaevent =
  ev_start :: int
  ev_end :: int
  ev_text :: string

type_synonym ssafile = "ssaevent list"

subsection \<open>Transcription and translation models\<close>

text \<open>
  The two methods of \<^verbatim>\<open>SubsAI\<close> that \<^verbatim>\<open>_transcribe\<close> calls. The class is not
  under src/, so the methods are parameters; each may raise (\<open>Inl\<close>).
\<close>

record ('f, 'm, 'e) subs_ai =
  create_model :: "nat \<Rightarrow> string \<Rightarrow> 'f model_config option \<Rightarrow> 'e + 'm"
  transcribe_media :: "nat \<Rightarrow> string \<Rightarrow> 'm \<Rightarrow> 'e + ssafile"

text \<open>
  The body of \<^verbatim>\<open>_transcribe\<close> (lines 190-192). \<open>model_config\<close> is \<open>None\<close> when the
  caller passes Python's \<^verbatim>\<open>None\<close>.
\<close>

definition transcribe_body ::
  "('f, 'm, 'e) subs_ai \<Rightarrow> nat \<Rightarrow> string \<times> string \<times> 'f model_config option \<Rightarrow> 'e + ssafile" where
  "transcribe_body E w = (\<lambda>(file_path, model_name, model_config).
     case create_model E w model_name model_config of
       Inl e \<Rightarrow> Inl e
     | Inr model \<Rightarrow> transcribe_media E w file_path model)"

text \<open>
  Modelled from the spec: the key under which \<^verbatim>\<open>st.cache_data\<close> (not under src/)
  stores a transcript. Sections 3 and 4.3 of the specification: the key is composed of
  the media file path, the model identifier and a canonical form of the config, such
  that mappings that are equal, whatever the order of their entries, give the same
  key. The canonical form of a dict is the mapping that it denotes.
\<close>

type_synonym 'f cache_key = "string \<times> string \<times> (string \<rightharpoonup> 'f pyval) option"

definition cache_key :: "string \<times> string \<times> 'f model_config option \<Rightarrow> 'f cache_key" where
  "cache_key = (\<lambda>(file_path, model_name, model_config).
     (file_path, model_name, map_option map_of model_config))"

text \<open>\<^verbatim>\<open>_transcribe\<close> (lines 179-192): the body under \<^verbatim>\<open>st.cache_data\<close>.\<close>

definition transcribe ::
  "('f, 'm, 'e) subs_ai \<Rightarrow> string \<Rightarrow> string \<Rightarrow> 'f model_config option
     \<Rightarrow> ('f cache_key, ssafile) memo \<Rightarrow> ('e + ssafile) \<times> ('f cache_key, ssafile) memo" where
  "transcribe E file_path model_name model_config =
     cached cache_key (transcribe_body E) (file_path, model_name, model_config)"

text \<open>
  \<^verbatim>\<open>_create_translation_model\<close> (lines 165-176): \<^verbatim>\<open>tools.create_translation_model\<close>
  under \<^verbatim>\<open>st.cache_resource\<close>. The method of \<^verbatim>\<open>Tools\<close> is not under src/ and is
  the parameter \<open>tools_create\<close>; a value of type \<open>'t\<close> is a reference to the model
  object that it built.
\<close>

definition create_translation_model ::
  "(nat \<Rightarrow> string \<Rightarrow> 'e + 't) \<Rightarrow> string \<Rightarrow> (string, 't) memo \<Rightarrow> ('e + 't) \<times> (string, 't) memo" where
  "create_translation_model tools_create model_name =
     cached (\<lambda>name. name) tools_create model_name"

text \<open>A sequence of calls of \<^verbatim>\<open>_create_translation_model\<close>, with the result of each.\<close>

fun translation_model_calls ::
  "(nat \<Rightarrow> string \<Rightarrow> 'e + 't) \<Rightarrow> string list \<Rightarrow> (string, 't) memo
     \<Rightarrow> ('e + 't) list \<times> (string, 't) memo" where
  "translation_model_calls tools_create [] s = ([], s)"
| "translation_model_calls tools_create (model_name # names) s =
     (case create_translation_model tools_create model_name s of
        (r, s') \<Rightarrow>
          (case translation_model_calls tools_create names s' of
             (rs, s'') \<Rightarrow> (r # rs, s'')))"

text \<open>A sample engine for evaluating examples: its transcript changes from run to run.\<close>

definition sample_subs_ai :: "(rat, string, string) subs_ai" where
  "sample_subs_ai =
     \<lparr> create_model = (\<lambda>w model_name model_config.
         case model_config of None \<Rightarrow> Inl ''no config'' | Some c \<Rightarrow> Inr model_name),
       transcribe_media = (\<lambda>w file_path model.
         Inr [\<lparr> ev_start = 0, ev_end = 1000 + int w, ev_text = file_path \<rparr>]) \<rparr>"

text \<open>
  A sample of \<^verbatim>\<open>tools.create_translation_model\<close>: the object that it builds is
  identified by the name of the model and the number of the run that built it.
\<close>

definition sample_tools_create :: "nat \<Rightarrow> string \<Rightarrow> string + string \<times> nat" where
  "sample_tools_create w model_name =
     (if model_name = [] then Inl ''unknown model'' else Inr (model_name, w))"

subsection \<open>The subtitles of a session\<close>

text \<open>
  Subtitle files are objects that the code shares and edits in place, so a session holds
  them in a store: a reference is a position in \<open>objects\<close>, and a new object is put at
  the end. \<open>transcribed_subs\<close> and \<open>original_subs\<close> are the entries of
  \<^verbatim>\<open>st.session_state\<close> under these keys (\<open>None\<close>: the key is absent), and
  \<open>selected_row_idx\<close> the entry that line 382 writes.
\<close>

record session =
  objects :: "ssafile list"
  transcribed_subs :: "nat option"
  original_subs :: "nat option"
  selected_row_idx :: "int option"

text \<open>Every reference of a session points into its store.\<close>

definition session_ok :: "session \<Rightarrow> bool" where
  "session_ok s =
     ((case transcribed_subs s of None \<Rightarrow> True | Some r \<Rightarrow> r < length (objects s))
      \<and> (case original_subs s of None \<Rightarrow> True | Some r \<Rightarrow> r < length (objects s)))"

text \<open>The subtitle file that the UI shows: the object under \<^verbatim>\<open>'transcribed_subs'\<close>.\<close>

definition active_subs :: "session \<Rightarrow> ssafile option" where
  "active_subs s = map_option (\<lambda>r. objects s ! r) (transcribed_subs s)"

definition backup_subs :: "session \<Rightarrow> ssafile option" where
  "backup_subs s = map_option (\<lambda>r. objects s ! r) (original_subs s)"

text \<open>What a handler reports to the user.\<close>

datatype notice =
  Quiet | Success | No_subtitles_to_translate | Translator_failed
  | Original_subs_already_loaded | Error_parsing_subs

text \<open>
  The "Translate" button (lines 320-332 and 341-343). \<^verbatim>\<open>tools.google_translate\<close> is
  not under src/ and is a parameter: from the subtitles and the target language it
  builds a new subtitle file, or raises. The local variable \<^verbatim>\<open>subs\<close> that it is given
  is the object under \<^verbatim>\<open>'transcribed_subs'\<close> (lines 262-263 and 306-307).
\<close>

definition translate_clicked ::
  "(ssafile \<Rightarrow> string \<Rightarrow> 'e + ssafile) \<Rightarrow> string \<Rightarrow> session \<Rightarrow> notice \<times> session" where
  "translate_clicked google_translate target_language s =
     (case transcribed_subs s of
        None \<Rightarrow> (No_subtitles_to_translate, s)
      | Some r \<Rightarrow>
          (case google_translate (objects s ! r) target_language of
             Inl e \<Rightarrow> (Translator_failed, s)
           | Inr translated_subs \<Rightarrow>
               (Success,
                s\<lparr> objects := objects s @ [translated_subs],
                   original_subs := transcribed_subs s,
                   transcribed_subs := Some (length (objects s)) \<rparr>)))"

text \<open>The "Reload Original subtitles" button (lines 334-340).\<close>

definition reload_clicked :: "session \<Rightarrow> notice \<times> session" where
  "reload_clicked s =
     (case original_subs s of
        Some r \<Rightarrow> (Quiet, s\<lparr> transcribed_subs := Some r \<rparr>)
      | None \<Rightarrow> (Original_subs_already_loaded, s))"

text \<open>
  Indexing a Python sequence of length \<open>n\<close> with the integer \<open>i\<close>: a negative index
  counts from the end, and an index outside \<open>-n \<le> i < n\<close> raises \<^verbatim>\<open>IndexError\<close>.
\<close>

definition py_index :: "nat \<Rightarrow> int \<Rightarrow> nat option" where
  "py_index n i =
     (if 0 \<le> i \<and> i < int n then Some (nat i)
      else if - int n \<le> i \<and> i < 0 then Some (nat (int n + i))
      else None)"

text \<open>
  The edit of the selected row (lines 381-393). Line 382 stores the row index first.
  Inside the \<^verbatim>\<open>try\<close>, a missing \<^verbatim>\<open>'transcribed_subs'\<close> raises \<^verbatim>\<open>KeyError\<close> and an
  index out of range raises \<^verbatim>\<open>IndexError\<close>; both are caught and reported. Otherwise
  the text of the event is assigned in place.
\<close>

definition edit_selected_row :: "int \<Rightarrow> string \<Rightarrow> session \<Rightarrow> notice \<times> session" where
  "edit_selected_row changed_sub_index changed_sub_text s =
     (let s1 = s\<lparr> selected_row_idx := Some changed_sub_index \<rparr> in
      case transcribed_subs s1 of
        None \<Rightarrow> (Error_parsing_subs, s1)
      | Some r \<Rightarrow>
          (let subs = objects s1 ! r in
           case py_index (length subs) changed_sub_index of
             None \<Rightarrow> (Error_parsing_subs, s1)
           | Some j \<Rightarrow>
               (Quiet,
                s1\<lparr> objects :=
                      (objects s1)[r := subs[j := (subs ! j)\<lparr> ev_text := changed_sub_text \<rparr>]] \<rparr>)))"

text \<open>
  An edit of the text of the event at position \<open>j\<close> and of nothing else: the length,
  every start and end time and every other text are as before.
\<close>

definition only_text_changed :: "ssafile \<Rightarrow> nat \<Rightarrow> string \<Rightarrow> ssafile \<Rightarrow> bool" where
  "only_text_changed subs j new_text subs' =
     (length subs' = length subs
      \<and> ev_text (subs' ! j) = new_text
      \<and> (\<forall>k < length subs. ev_start (subs' ! k) = ev_start (subs ! k)
                              \<and> ev_end (subs' ! k) = ev_end (subs ! k)
                              \<and> (k \<noteq> j \<longrightarrow> ev_text (subs' ! k) = ev_text (subs ! k))))"

text \<open>A sample translator, subtitle file and session for evaluating examples.\<close>

definition sample_google_translate :: "ssafile \<Rightarrow> string \<Rightarrow> string + ssafile" where
  "sample_google_translate subs target_language =
     (if subs = [] then Inl ''nothing to translate''
      else Inr (map (\<lambda>e. e\<lparr> ev_text := target_language @ '':'' @ ev_text e \<rparr>) subs))"

definition sample_subs :: ssafile where
  "sample_subs =
     [\<lparr> ev_start = 0, ev_end = 1500, ev_text = ''hello'' \<rparr>,
      \<lparr> ev_start = 1500, ev_end = 4000, ev_text = ''world'' \<rparr>]"

definition sample_session :: session where
  "sample_session =
     \<lparr> objects = [sample_subs], transcribed_subs = Some 0, original_subs = None,
       selected_row_idx = None \<rparr>"

section \<open>Properties of the configuration keys\<close>

lemma get_key_inject: "get_key m n = get_key m n' \<longleftrightarrow> n = n'"
  by (simp add: get_key_def)

text \<open>
  C10. The key derived from a (model name, parameter name) pair is not injective: the
  pairs ("a-b", "c") and ("a", "b-c") differ and give the same key "a-b-c". Hence the
  value stored under that key is read for parameter "c" of model "a-b" and for
  parameter "b-c" of model "a" alike.
\<close>

theorem get_key_not_injective:
  "(''a-b'', ''c'') \<noteq> (''a'', ''b-c'')
   \<and> get_key ''a-b'' ''c'' = get_key ''a'' ''b-c''
   \<and> \<not> inj (\<lambda>(m, n). get_key m n)
   \<and> get_config_from_session_state B ''a-b''
        [(''c'', \<lparr>ptype = T_str, description = [], options = None, default = PyNone\<rparr>)]
        [''a-b-c'' \<mapsto> PyStr ''x''] = Inr [(''c'', PyStr ''x'')]
   \<and> get_config_from_session_state B ''a''
        [(''b-c'', \<lparr>ptype = T_str, description = [], options = None, default = PyNone\<rparr>)]
        [''a-b-c'' \<mapsto> PyStr ''x''] = Inr [(''b-c'', PyStr ''x'')]"
proof -
  have k: "get_key ''a-b'' ''c'' = get_key ''a'' ''b-c''"
    by (simp add: get_key_def)
  have "\<not> inj (\<lambda>(m, n). get_key m n)"
  proof
    assume "inj (\<lambda>(m, n). get_key m n)"
    then have "(''a-b'', ''c'') = (''a'', ''b-c'')"
      using k by (auto dest!: injD [where x = "(''a-b'', ''c'')" and y = "(''a'', ''b-c'')"])
    then show False by simp
  qed
  then show ?thesis
    by (simp add: get_key_def get_config_from_session_state_def coerce_def)
qed

section \<open>Properties of the coercion\<close>

subsection \<open>The conversions and one coerced value\<close>

lemma py_int_result: "py_int B v = Inr w \<Longrightarrow> \<exists>i. w = PyInt i"
  by (cases v) (auto split: sum.splits option.splits)

lemma py_float_result: "py_float B v = Inr w \<Longrightarrow> \<exists>x. w = PyFloat x"
  by (cases v) (auto split: sum.splits option.splits)

lemma py_int_exception: "py_int B v = Inl e \<Longrightarrow> \<exists>c. e = Raised c To_int v"
  by (cases v) (auto split: sum.splits option.splits)

lemma py_float_exception: "py_float B v = Inl e \<Longrightarrow> \<exists>c. e = Raised c To_float v"
  by (cases v) (auto split: sum.splits option.splits)

lemma coerce_exception:
  "coerce B ty v = Inl e \<Longrightarrow>
     (ty = T_float \<and> (\<exists>c. e = Raised c To_float v)) \<or> (ty = T_int \<and> (\<exists>c. e = Raised c To_int v))"
  by (auto simp: coerce_def split: if_splits dest: py_int_exception py_float_exception)

lemma coerce_satisfied:
  "satisfies_constraint B spec v \<Longrightarrow> \<exists>w. coerce B (ptype spec) v = Inr w"
  by (cases "ptype spec"; cases "py_int B v"; cases "py_float B v")
     (auto simp: satisfies_constraint_def coerce_def)

lemma coerce_again:
  "coerce B ty v = Inr w \<Longrightarrow>
   \<not> ((ty = T_int \<or> ty = T_float) \<and> (v = PyStr ''None'' \<or> v = PyStr ''''))
   \<Longrightarrow> coerce B ty w = Inr w"
  by (cases ty) (auto simp: coerce_def split: if_splits dest: py_int_result py_float_result)

lemma raw_of_config_key: "raw_of_config m cfg (get_key m n) = map_of cfg n"
  by (induction cfg) (auto simp: raw_of_config_def get_key_inject)

lemmas eval_config =
  get_config_from_session_state_def coerce_def get_key_def sample_builtins_def
  sample_int_of_str_def unsigned_literal_def digit_of_def shift_schema_def frames_spec_def
  whisper_schema_def model_type_spec_def

subsection \<open>The loop\<close>

text \<open>
  A parameter that the schema does not name, or whose key the session state lacks,
  keeps in the result the binding that it had in the accumulator.
\<close>

lemma config_loop_frame:
  "config_loop B m S st acc = Inr cfg \<Longrightarrow> n \<notin> fst ` set S \<or> st (get_key m n) = None
     \<Longrightarrow> map_of cfg n = map_of acc n"
proof (induction S arbitrary: acc)
  case Nil
  then show ?case by simp
next
  case (Cons p S)
  obtain n' spec where p: "p = (n', spec)" by (cases p)
  show ?case
  proof (cases "st (get_key m n')")
    case None
    with Cons p show ?thesis by auto
  next
    case (Some v)
    with Cons.prems p obtain w where w: "coerce B (ptype spec) v = Inr w"
      and run: "config_loop B m S st (AList.update n' w acc) = Inr cfg"
      by (auto split: sum.splits)
    from Cons.prems(2) Some p have ne: "n \<noteq> n'" by auto
    from Cons.prems(2) have "n \<notin> fst ` set S \<or> st (get_key m n) = None" by auto
    from Cons.IH [OF run this] ne show ?thesis
      by (simp add: AList.update_conv')
  qed
qed

text \<open>A parameter whose key the session state has is bound to its coerced value.\<close>

lemma config_loop_present:
  "distinct (map fst S) \<Longrightarrow> (n, spec) \<in> set S \<Longrightarrow> st (get_key m n) = Some v
     \<Longrightarrow> config_loop B m S st acc = Inr cfg
     \<Longrightarrow> \<exists>w. coerce B (ptype spec) v = Inr w \<and> map_of cfg n = Some w"
proof (induction S arbitrary: acc)
  case Nil
  then show ?case by simp
next
  case (Cons p S)
  obtain n' spec' where p: "p = (n', spec')" by (cases p)
  show ?case
  proof (cases "(n, spec) = p")
    case True
    with Cons.prems p obtain w where w: "coerce B (ptype spec) v = Inr w"
      and run: "config_loop B m S st (AList.update n w acc) = Inr cfg"
      by (auto split: sum.splits)
    from Cons.prems(1) True have "n \<notin> fst ` set S" by force
    then have "map_of cfg n = map_of (AList.update n w acc) n"
      using config_loop_frame [OF run] by blast
    with w show ?thesis by (simp add: AList.update_conv')
  next
    case False
    with Cons.prems have mem: "(n, spec) \<in> set S" and d: "distinct (map fst S)" by auto
    show ?thesis
    proof (cases "st (get_key m n')")
      case None
      with Cons.prems p have "config_loop B m S st acc = Inr cfg" by simp
      from Cons.IH [OF d mem Cons.prems(3) this] show ?thesis .
    next
      case (Some v')
      with Cons.prems p obtain w' where
        run: "config_loop B m S st (AList.update n' w' acc) = Inr cfg"
        by (auto split: sum.splits)
      from Cons.IH [OF d mem Cons.prems(3) run] show ?thesis .
    qed
  qed
qed

text \<open>
  When a value fails, the loop returns the exception of the first parameter in schema
  order whose value fails.
\<close>

lemma config_loop_fails:
  "(n, spec) \<in> set S \<Longrightarrow> st (get_key m n) = Some v \<Longrightarrow> coerce B (ptype spec) v = Inl e
     \<Longrightarrow> \<exists>pre n' spec' post v' e'.
           S = pre @ (n', spec') # post
           \<and> (\<forall>(p, sp) \<in> set pre. \<forall>u. st (get_key m p) = Some u \<longrightarrow> isl (coerce B (ptype sp) u) = False)
           \<and> st (get_key m n') = Some v'
           \<and> coerce B (ptype spec') v' = Inl e'
           \<and> config_loop B m S st acc = Inl e'"
proof (induction S arbitrary: acc)
  case Nil
  then show ?case by simp
next
  case (Cons p S)
  obtain n0 spec0 where p: "p = (n0, spec0)" by (cases p)
  consider (absent) "st (get_key m n0) = None"
    | (bad) u e0 where "st (get_key m n0) = Some u" "coerce B (ptype spec0) u = Inl e0"
    | (good) u w where "st (get_key m n0) = Some u" "coerce B (ptype spec0) u = Inr w"
    by (cases "st (get_key m n0)"; cases "coerce B (ptype spec0) (the (st (get_key m n0)))") auto
  then show ?case
  proof cases
    case bad
    then have "p # S = [] @ (n0, spec0) # S
           \<and> (\<forall>(p, sp) \<in> set []. \<forall>u. st (get_key m p) = Some u \<longrightarrow> isl (coerce B (ptype sp) u) = False)
           \<and> st (get_key m n0) = Some u
           \<and> coerce B (ptype spec0) u = Inl e0
           \<and> config_loop B m (p # S) st acc = Inl e0"
      by (simp add: p)
    then show ?thesis by blast
  next
    case absent
    with Cons.prems p have mem: "(n, spec) \<in> set S" by auto
    from Cons.IH [OF mem Cons.prems(2,3), of acc]
    obtain pre n' spec' post v' e' where
      *: "S = pre @ (n', spec') # post"
         "\<forall>(p, sp) \<in> set pre. \<forall>u. st (get_key m p) = Some u \<longrightarrow> isl (coerce B (ptype sp) u) = False"
         "st (get_key m n') = Some v'" "coerce B (ptype spec') v' = Inl e'"
         "config_loop B m S st acc = Inl e'"
      by blast
    have "p # S = (p # pre) @ (n', spec') # post
           \<and> (\<forall>(p, sp) \<in> set (p # pre). \<forall>u. st (get_key m p) = Some u \<longrightarrow> isl (coerce B (ptype sp) u) = False)
           \<and> st (get_key m n') = Some v'
           \<and> coerce B (ptype spec') v' = Inl e'
           \<and> config_loop B m (p # S) st acc = Inl e'"
      using * absent by (simp add: p)
    then show ?thesis by blast
  next
    case good
    with Cons.prems p have mem: "(n, spec) \<in> set S" by auto
    from Cons.IH [OF mem Cons.prems(2,3), of "AList.update n0 w acc"]
    obtain pre n' spec' post v' e' where
      *: "S = pre @ (n', spec') # post"
         "\<forall>(p, sp) \<in> set pre. \<forall>u. st (get_key m p) = Some u \<longrightarrow> isl (coerce B (ptype sp) u) = False"
         "st (get_key m n') = Some v'" "coerce B (ptype spec') v' = Inl e'"
         "config_loop B m S st (AList.update n0 w acc) = Inl e'"
      by blast
    have "p # S = (p # pre) @ (n', spec') # post
           \<and> (\<forall>(p, sp) \<in> set (p # pre). \<forall>u. st (get_key m p) = Some u \<longrightarrow> isl (coerce B (ptype sp) u) = False)
           \<and> st (get_key m n') = Some v'
           \<and> coerce B (ptype spec') v' = Inl e'
           \<and> config_loop B m (p # S) st acc = Inl e'"
      using * good by (simp add: p)
    then show ?thesis by blast
  qed
qed

text \<open>When every value that is present coerces, the loop returns a dict.\<close>

lemma config_loop_succeeds:
  "\<forall>(n, spec) \<in> set S. \<forall>v. st (get_key m n) = Some v \<longrightarrow> (\<exists>w. coerce B (ptype spec) v = Inr w)
     \<Longrightarrow> \<exists>cfg. config_loop B m S st acc = Inr cfg"
proof (induction S arbitrary: acc)
  case Nil
  then show ?case by simp
next
  case (Cons p S)
  obtain n0 spec0 where p: "p = (n0, spec0)" by (cases p)
  from Cons.prems have rest:
    "\<forall>(n, spec) \<in> set S. \<forall>v. st (get_key m n) = Some v \<longrightarrow> (\<exists>w. coerce B (ptype spec) v = Inr w)"
    by simp
  show ?case
  proof (cases "st (get_key m n0)")
    case None
    with Cons.IH [OF rest, of acc] p show ?thesis by simp
  next
    case (Some v)
    with Cons.prems p obtain w where w: "coerce B (ptype spec0) v = Inr w" by auto
    with Cons.IH [OF rest, of "AList.update n0 w acc"] Some p show ?thesis by simp
  qed
qed

text \<open>
  Running the loop on its own result, fed back as raw input, gives the result again,
  unless a numeric parameter was unset.
\<close>

lemma config_loop_again:
  "config_loop B m S st acc = Inr cfg \<Longrightarrow> distinct (map fst S)
     \<Longrightarrow> \<forall>n \<in> fst ` set S. map_of acc n = None
     \<Longrightarrow> \<forall>(n, spec) \<in> set S. \<not> ((ptype spec = T_int \<or> ptype spec = T_float)
            \<and> (st (get_key m n) = Some (PyStr ''None'') \<or> st (get_key m n) = Some (PyStr '''')))
     \<Longrightarrow> config_loop B m S (raw_of_config m cfg) acc = Inr cfg"
proof (induction S arbitrary: acc)
  case Nil
  then show ?case by simp
next
  case (Cons p S)
  obtain n0 spec0 where p: "p = (n0, spec0)" by (cases p)
  from Cons.prems(2) p have fresh: "n0 \<notin> fst ` set S" and d: "distinct (map fst S)"
    by auto
  from Cons.prems(4) have set_ok:
    "\<forall>(n, spec) \<in> set S. \<not> ((ptype spec = T_int \<or> ptype spec = T_float)
        \<and> (st (get_key m n) = Some (PyStr ''None'') \<or> st (get_key m n) = Some (PyStr '''')))"
    by simp
  show ?case
  proof (cases "st (get_key m n0)")
    case None
    with Cons.prems(1) p have run: "config_loop B m S st acc = Inr cfg" by simp
    have "map_of cfg n0 = map_of acc n0"
      using config_loop_frame [OF run] fresh by blast
    with Cons.prems(3) p have "raw_of_config m cfg (get_key m n0) = None"
      by (simp add: raw_of_config_key)
    moreover from Cons.prems(3) have "\<forall>n \<in> fst ` set S. map_of acc n = None" by simp
    from Cons.IH [OF run d this set_ok]
    have "config_loop B m S (raw_of_config m cfg) acc = Inr cfg" .
    ultimately show ?thesis by (simp add: p)
  next
    case (Some v)
    with Cons.prems(1) p obtain w where w: "coerce B (ptype spec0) v = Inr w"
      and run: "config_loop B m S st (AList.update n0 w acc) = Inr cfg"
      by (auto split: sum.splits)
    have "map_of cfg n0 = map_of (AList.update n0 w acc) n0"
      using config_loop_frame [OF run] fresh by blast
    then have raw: "raw_of_config m cfg (get_key m n0) = Some w"
      by (simp add: raw_of_config_key AList.update_conv')
    from Cons.prems(4) Some p
    have "\<not> ((ptype spec0 = T_int \<or> ptype spec0 = T_float) \<and> (v = PyStr ''None'' \<or> v = PyStr ''''))"
      by auto
    from coerce_again [OF w this] have again: "coerce B (ptype spec0) w = Inr w" .
    have "\<forall>n \<in> fst ` set S. map_of (AList.update n0 w acc) n = None"
      using Cons.prems(3) fresh by (auto simp: AList.update_conv')
    from Cons.IH [OF run d this set_ok]
    have "config_loop B m S (raw_of_config m cfg) (AList.update n0 w acc) = Inr cfg" .
    with raw again show ?thesis by (simp add: p)
  qed
qed

subsection \<open>Parameters absent from the raw input\<close>

text \<open>
  C2. The specification lets a declared parameter that is absent from the raw input
  fall back to the default of its schema entry. The code catches the \<^verbatim>\<open>KeyError\<close>
  and passes: for every parameter that the schema declares and whose key the raw
  input lacks, the resolved configuration has no entry at all, and the default is not
  put in.
\<close>

theorem absent_parameter_is_skipped:
  assumes "(n, spec) \<in> set S"
      and "st (get_key m n) = None"
      and "get_config_from_session_state B m S st = Inr cfg"
  shows "map_of cfg n = None"
  using config_loop_frame [of B m S st "[]" cfg n] assms(2,3)
  by (simp add: get_config_from_session_state_def)

theorem absent_parameter_is_skipped_witness:
  "(''frames'', frames_spec) \<in> set shift_schema
   \<and> [''shift-h'' \<mapsto> PyStr ''2'' :: rat pyval] (get_key ''shift'' ''frames'') = None
   \<and> get_config_from_session_state sample_builtins ''shift'' shift_schema
        [''shift-h'' \<mapsto> PyStr ''2''] = Inr [(''h'', PyFloat 2)]
   \<and> map_of [(''h'', PyFloat (2::rat))] ''frames'' = None"
proof -
  have a: "(''frames'', frames_spec) \<in> set shift_schema"
    by (simp add: shift_schema_def frames_spec_def)
  have b: "[''shift-h'' \<mapsto> PyStr ''2'' :: rat pyval] (get_key ''shift'' ''frames'') = None"
    by (simp add: get_key_def)
  have c: "get_config_from_session_state sample_builtins ''shift'' shift_schema
        [''shift-h'' \<mapsto> PyStr ''2''] = Inr [(''h'', PyFloat 2)]"
    by (simp add: eval_config)
  from absent_parameter_is_skipped [OF a b c] a b c show ?thesis by simp
qed

text \<open>
  The example of the specification: with no raw value for \<open>model_type\<close>, whose default
  is "base", the resolved configuration is empty and does not bind \<open>model_type\<close>.
\<close>

theorem absent_parameter_default_counterexample:
  "(''model_type'', model_type_spec) \<in> set whisper_schema
   \<and> default model_type_spec = PyStr ''base''
   \<and> get_config_from_session_state sample_builtins ''openai/whisper'' whisper_schema Map.empty
       = Inr []
   \<and> map_of ([] :: rat model_config) ''model_type'' = None"
  by (simp add: eval_config)

subsection \<open>A value that fails its coercion\<close>

text \<open>
  C3. When the raw value of some parameter fails its coercion, the whole call fails: it
  returns no dict, so nothing that was coerced before the failure is returned. The
  failure that the call reports is the exception of the first parameter in schema
  order whose value fails; it consists of the class of the exception, the conversion
  and the raw value, and does not name the parameter.
\<close>

theorem coercion_failure_is_total:
  assumes "(n, spec) \<in> set S"
      and "st (get_key m n) = Some v"
      and "coerce B (ptype spec) v = Inl e"
  shows "\<exists>pre n' spec' post v' c k.
           S = pre @ (n', spec') # post
           \<and> (\<forall>(p, sp) \<in> set pre. \<forall>u. st (get_key m p) = Some u \<longrightarrow> isl (coerce B (ptype sp) u) = False)
           \<and> st (get_key m n') = Some v'
           \<and> coerce B (ptype spec') v' = Inl (Raised c k v')
           \<and> get_config_from_session_state B m S st = Inl (Raised c k v')"
proof -
  from config_loop_fails [where S = S and n = n and spec = spec and st = st and m = m
      and v = v and B = B and e = e and acc = "[]", OF assms]
  obtain pre n' spec' post v' e' where
    *: "S = pre @ (n', spec') # post"
       "\<forall>(p, sp) \<in> set pre. \<forall>u. st (get_key m p) = Some u \<longrightarrow> isl (coerce B (ptype sp) u) = False"
       "st (get_key m n') = Some v'" "coerce B (ptype spec') v' = Inl e'"
       "config_loop B m S st [] = Inl e'"
    by blast
  from coerce_exception [OF *(4)] obtain c k where "e' = Raised c k v'" by blast
  with * show ?thesis
    unfolding get_config_from_session_state_def by blast
qed

theorem coercion_failure_is_total_witness:
  "(''frames'', frames_spec) \<in> set shift_schema
   \<and> [''shift-h'' \<mapsto> PyStr ''2'', ''shift-frames'' \<mapsto> PyStr ''abc'' :: rat pyval]
        (get_key ''shift'' ''frames'') = Some (PyStr ''abc'')
   \<and> coerce sample_builtins (ptype frames_spec) (PyStr ''abc'')
       = Inl (Raised ValueError To_int (PyStr ''abc''))
   \<and> (\<exists>v' c k.
         get_config_from_session_state sample_builtins ''shift'' shift_schema
           [''shift-h'' \<mapsto> PyStr ''2'', ''shift-frames'' \<mapsto> PyStr ''abc'']
         = Inl (Raised c k v'))"
proof -
  let ?st = "[''shift-h'' \<mapsto> PyStr ''2'', ''shift-frames'' \<mapsto> PyStr ''abc'' :: rat pyval]"
  have a: "(''frames'', frames_spec) \<in> set shift_schema"
    by (simp add: shift_schema_def frames_spec_def)
  have b: "?st (get_key ''shift'' ''frames'') = Some (PyStr ''abc'')"
    by (simp add: get_key_def)
  have c: "coerce sample_builtins (ptype frames_spec) (PyStr ''abc'')
             = Inl (Raised ValueError To_int (PyStr ''abc''))"
    by (simp add: eval_config)
  from coercion_failure_is_total [where S = shift_schema and n = "''frames''"
      and spec = frames_spec and st = ?st and m = "''shift''" and v = "PyStr ''abc''"
      and B = sample_builtins, OF a b c]
  have "\<exists>v' c k.
         get_config_from_session_state sample_builtins ''shift'' shift_schema ?st
         = Inl (Raised c k v')"
    by blast
  with a b c show ?thesis by blast
qed

text \<open>
  Two raw inputs for the schema of \<open>shift\<close>: in the first the value of \<open>h\<close> is
  malformed, in the second the value of \<open>fps\<close>. The two calls report one and the same
  failure, so the failure does not tell which parameter was at fault.
\<close>

theorem failure_names_parameter_counterexample:
  "get_config_from_session_state sample_builtins ''shift'' shift_schema
     [''shift-h'' \<mapsto> PyStr ''abc''] = Inl (Raised ValueError To_float (PyStr ''abc''))
   \<and> get_config_from_session_state sample_builtins ''shift'' shift_schema
     [''shift-fps'' \<mapsto> PyStr ''abc''] = Inl (Raised ValueError To_float (PyStr ''abc''))"
  by (simp add: eval_config)

subsection \<open>Enumerated choices\<close>

text \<open>
  C4. The specification lets the coercion of an enumerated choice fail on a raw value
  outside \<open>options\<close>. The code never looks at \<open>options\<close>: the raw value of a
  parameter of enumerated-choice type is passed through unchanged, member or not, and
  a resolved configuration binds the parameter to it.
\<close>

theorem enumerated_choice_passes_through:
  assumes "distinct (map fst S)"
      and "(n, spec) \<in> set S"
      and "ptype spec = T_list"
      and "st (get_key m n) = Some v"
  shows "coerce B (ptype spec) v = Inr v
         \<and> (\<forall>cfg. get_config_from_session_state B m S st = Inr cfg \<longrightarrow> map_of cfg n = Some v)"
proof -
  have c: "coerce B (ptype spec) v = Inr v"
    using assms(3) by (simp add: coerce_def)
  moreover have "map_of cfg n = Some v"
    if "get_config_from_session_state B m S st = Inr cfg" for cfg
    using config_loop_present [where S = S and n = n and spec = spec and st = st and m = m
        and v = v and B = B and acc = "[]" and cfg = cfg] assms that c
    by (simp add: get_config_from_session_state_def)
  ultimately show ?thesis by blast
qed

theorem enumerated_choice_passes_through_witness:
  "distinct (map fst whisper_schema)
   \<and> (''model_type'', model_type_spec) \<in> set whisper_schema
   \<and> ptype model_type_spec = T_list
   \<and> [''openai/whisper-model_type'' \<mapsto> PyStr ''small'' :: rat pyval]
        (get_key ''openai/whisper'' ''model_type'') = Some (PyStr ''small'')
   \<and> coerce sample_builtins (ptype model_type_spec) (PyStr ''small'') = Inr (PyStr ''small'')
   \<and> map_of [(''model_type'', PyStr ''small'' :: rat pyval)] ''model_type''
       = Some (PyStr ''small'')"
proof -
  let ?st = "[''openai/whisper-model_type'' \<mapsto> PyStr ''small'' :: rat pyval]"
  have a: "distinct (map fst whisper_schema)"
    by (simp add: whisper_schema_def)
  have b: "(''model_type'', model_type_spec) \<in> set whisper_schema"
    by (simp add: whisper_schema_def)
  have c: "ptype model_type_spec = T_list"
    by (simp add: model_type_spec_def)
  have d: "?st (get_key ''openai/whisper'' ''model_type'') = Some (PyStr ''small'')"
    by (simp add: get_key_def)
  have e: "get_config_from_session_state sample_builtins ''openai/whisper'' whisper_schema ?st
             = Inr [(''model_type'', PyStr ''small'')]"
    by (simp add: eval_config)
  from enumerated_choice_passes_through [where S = whisper_schema and n = "''model_type''"
      and spec = model_type_spec and st = ?st and m = "''openai/whisper''"
      and v = "PyStr ''small''" and B = sample_builtins, OF a b c d] e a b c d
  show ?thesis by (simp add: get_key_def)
qed

text \<open>
  The example of the specification: "giant" is not among the options tiny, base and
  small, and resolving it succeeds with \<open>model_type\<close> bound to "giant".
\<close>

theorem enumerated_choice_counterexample:
  "options model_type_spec = Some [PyStr ''tiny'', PyStr ''base'', PyStr ''small'']
   \<and> PyStr ''giant'' \<notin> set [PyStr ''tiny'', PyStr ''base'', PyStr ''small'' :: rat pyval]
   \<and> get_config_from_session_state sample_builtins ''openai/whisper'' whisper_schema
        [''openai/whisper-model_type'' \<mapsto> PyStr ''giant'']
       = Inr [(''model_type'', PyStr ''giant'')]"
  by (simp add: eval_config)

subsection \<open>Text and numeric parameters\<close>

text \<open>
  C5. For every parameter present in the raw input (of a call that returns a resolved
  configuration): if its declared type is text, the raw values "" and "None" are
  coerced to \<^verbatim>\<open>None\<close> and every other value passes through unchanged; if its declared
  type is integer or real, the raw values "None" and "" are coerced to \<^verbatim>\<open>None\<close> and
  every other value is parsed by \<^verbatim>\<open>int()\<close>, respectively \<^verbatim>\<open>float()\<close>, and the
  configuration binds the parameter to the integer, respectively the float, that the
  parse returned.
\<close>

theorem coercion_by_declared_type:
  assumes "distinct (map fst S)"
      and "(n, spec) \<in> set S"
      and "st (get_key m n) = Some v"
      and "get_config_from_session_state B m S st = Inr cfg"
  shows "(ptype spec = T_str \<longrightarrow>
            map_of cfg n = Some (if v = PyStr '''' \<or> v = PyStr ''None'' then PyNone else v))
       \<and> (ptype spec = T_int \<longrightarrow>
            (if v = PyStr ''None'' \<or> v = PyStr '''' then map_of cfg n = Some PyNone
             else \<exists>i. py_int B v = Inr (PyInt i) \<and> map_of cfg n = Some (PyInt i)))
       \<and> (ptype spec = T_float \<longrightarrow>
            (if v = PyStr ''None'' \<or> v = PyStr '''' then map_of cfg n = Some PyNone
             else \<exists>x. py_float B v = Inr (PyFloat x) \<and> map_of cfg n = Some (PyFloat x)))"
proof -
  from config_loop_present [where S = S and n = n and spec = spec and st = st and m = m
      and v = v and B = B and acc = "[]" and cfg = cfg] assms
  obtain w where w: "coerce B (ptype spec) v = Inr w" and cfg: "map_of cfg n = Some w"
    by (auto simp: get_config_from_session_state_def)
  have "map_of cfg n = Some (if v = PyStr '''' \<or> v = PyStr ''None'' then PyNone else v)"
    if "ptype spec = T_str"
    using that w cfg by (auto simp: coerce_def split: if_splits)
  moreover have "if v = PyStr ''None'' \<or> v = PyStr '''' then map_of cfg n = Some PyNone
                 else \<exists>i. py_int B v = Inr (PyInt i) \<and> map_of cfg n = Some (PyInt i)"
    if "ptype spec = T_int"
    using that w cfg by (auto simp: coerce_def split: if_splits dest: py_int_result)
  moreover have "if v = PyStr ''None'' \<or> v = PyStr '''' then map_of cfg n = Some PyNone
                 else \<exists>x. py_float B v = Inr (PyFloat x) \<and> map_of cfg n = Some (PyFloat x)"
    if "ptype spec = T_float"
    using that w cfg by (auto simp: coerce_def split: if_splits dest: py_float_result)
  ultimately show ?thesis by blast
qed

theorem coercion_by_declared_type_witness:
  "distinct (map fst shift_schema)
   \<and> (''frames'', frames_spec) \<in> set shift_schema
   \<and> [''shift-h'' \<mapsto> PyInt 2, ''shift-frames'' \<mapsto> PyStr ''42'',
        ''shift-fps'' \<mapsto> PyStr ''None'' :: rat pyval]
        (get_key ''shift'' ''frames'') = Some (PyStr ''42'')
   \<and> get_config_from_session_state sample_builtins ''shift'' shift_schema
        [''shift-h'' \<mapsto> PyInt 2, ''shift-frames'' \<mapsto> PyStr ''42'', ''shift-fps'' \<mapsto> PyStr ''None'']
       = Inr [(''h'', PyFloat 2), (''frames'', PyInt 42), (''fps'', PyNone)]
   \<and> (\<exists>i. py_int sample_builtins (PyStr ''42'') = Inr (PyInt i)
          \<and> map_of [(''h'', PyFloat (2::rat)), (''frames'', PyInt 42), (''fps'', PyNone)] ''frames''
              = Some (PyInt i))"
proof -
  let ?st = "[''shift-h'' \<mapsto> PyInt 2, ''shift-frames'' \<mapsto> PyStr ''42'',
              ''shift-fps'' \<mapsto> PyStr ''None'' :: rat pyval]"
  have a: "distinct (map fst shift_schema)"
    by (simp add: shift_schema_def)
  have b: "(''frames'', frames_spec) \<in> set shift_schema"
    by (simp add: shift_schema_def frames_spec_def)
  have c: "?st (get_key ''shift'' ''frames'') = Some (PyStr ''42'')"
    by (simp add: get_key_def)
  have d: "get_config_from_session_state sample_builtins ''shift'' shift_schema ?st
             = Inr [(''h'', PyFloat 2), (''frames'', PyInt 42), (''fps'', PyNone)]"
    by (simp add: eval_config)
  have t: "ptype frames_spec = T_int"
    by (simp add: frames_spec_def)
  from coercion_by_declared_type [where S = shift_schema and n = "''frames''"
      and spec = frames_spec and st = ?st and m = "''shift''" and v = "PyStr ''42''"
      and B = sample_builtins, OF a b c d] t
  have "\<exists>i. py_int sample_builtins (PyStr ''42'') = Inr (PyInt i)
          \<and> map_of [(''h'', PyFloat (2::rat)), (''frames'', PyInt 42), (''fps'', PyNone)] ''frames''
              = Some (PyInt i)"
    by simp
  with a b c d show ?thesis by blast
qed

subsection \<open>Coercing twice\<close>

text \<open>
  C6. For every schema and every raw input that satisfies the type and options
  constraint of each parameter, the coercion succeeds. When, in addition, the parameter
  names are distinct (as the keys of a dict are) and no integer or real parameter has
  the raw value "None" or "", coercing the resolved configuration again (its values
  fed back as raw input) gives the same resolved configuration. An unset numeric
  parameter is excluded from the second part only, because its coerced value
  \<^verbatim>\<open>None\<close> is not accepted by \<^verbatim>\<open>int()\<close> and \<^verbatim>\<open>float()\<close>.
\<close>

theorem coercion_idempotent:
  assumes "satisfies_constraints B m S st"
  shows "(\<exists>cfg. get_config_from_session_state B m S st = Inr cfg)
       \<and> (distinct (map fst S) \<and> \<not> numeric_unset m S st \<longrightarrow>
            (\<forall>cfg. get_config_from_session_state B m S st = Inr cfg
               \<longrightarrow> get_config_from_session_state B m S (raw_of_config m cfg) = Inr cfg))"
proof -
  have "\<exists>w. coerce B (ptype spec) v = Inr w"
    if "(n, spec) \<in> set S" and "st (get_key m n) = Some v" for n spec v
  proof -
    from assms that(1) have
      "case st (get_key m n) of None \<Rightarrow> True | Some v \<Rightarrow> satisfies_constraint B spec v"
      unfolding satisfies_constraints_def list_all_iff by blast
    with that(2) have "satisfies_constraint B spec v" by simp
    then show ?thesis by (rule coerce_satisfied)
  qed
  then have "\<forall>(n, spec) \<in> set S. \<forall>v. st (get_key m n) = Some v \<longrightarrow> (\<exists>w. coerce B (ptype spec) v = Inr w)"
    by blast
  from config_loop_succeeds [OF this, of "[]"]
  have succeeds: "\<exists>cfg. get_config_from_session_state B m S st = Inr cfg"
    by (simp add: get_config_from_session_state_def)
  have again: "get_config_from_session_state B m S (raw_of_config m cfg) = Inr cfg"
    if d: "distinct (map fst S)" and set: "\<not> numeric_unset m S st"
      and run: "get_config_from_session_state B m S st = Inr cfg" for cfg
  proof -
    from run have loop: "config_loop B m S st [] = Inr cfg"
      by (simp add: get_config_from_session_state_def)
    have "\<forall>(n, spec) \<in> set S. \<not> ((ptype spec = T_int \<or> ptype spec = T_float)
            \<and> (st (get_key m n) = Some (PyStr ''None'') \<or> st (get_key m n) = Some (PyStr '''')))"
      using set by (auto simp: numeric_unset_def list_ex_iff)
    from config_loop_again [OF loop d _ this]
    have "config_loop B m S (raw_of_config m cfg) [] = Inr cfg" by simp
    then show ?thesis
      by (simp add: get_config_from_session_state_def)
  qed
  from succeeds again show ?thesis by blast
qed

text \<open>
  The schema of \<open>shift\<close> with two raw inputs: one sets \<open>h\<close> and \<open>frames\<close>, and its
  resolved configuration is coerced to itself; the other leaves \<open>frames\<close> unset, and
  its coercion succeeds.
\<close>

theorem coercion_idempotent_witness:
  "satisfies_constraints sample_builtins ''shift'' shift_schema
        [''shift-h'' \<mapsto> PyStr ''2'', ''shift-frames'' \<mapsto> PyInt 42]
   \<and> distinct (map fst shift_schema)
   \<and> \<not> numeric_unset ''shift'' shift_schema
        [''shift-h'' \<mapsto> PyStr ''2'', ''shift-frames'' \<mapsto> PyInt (42::int) :: rat pyval]
   \<and> get_config_from_session_state sample_builtins ''shift'' shift_schema
        [''shift-h'' \<mapsto> PyStr ''2'', ''shift-frames'' \<mapsto> PyInt 42]
       = Inr [(''h'', PyFloat 2), (''frames'', PyInt 42)]
   \<and> get_config_from_session_state sample_builtins ''shift'' shift_schema
        (raw_of_config ''shift'' [(''h'', PyFloat 2), (''frames'', PyInt 42)])
       = Inr [(''h'', PyFloat 2), (''frames'', PyInt 42)]
   \<and> satisfies_constraints sample_builtins ''shift'' shift_schema
        [''shift-frames'' \<mapsto> PyStr ''None'']
   \<and> numeric_unset ''shift'' shift_schema [''shift-frames'' \<mapsto> PyStr ''None'' :: rat pyval]
   \<and> (\<exists>cfg. get_config_from_session_state sample_builtins ''shift'' shift_schema
               [''shift-frames'' \<mapsto> PyStr ''None''] = Inr cfg)"
proof -
  let ?st = "[''shift-h'' \<mapsto> PyStr ''2'', ''shift-frames'' \<mapsto> PyInt 42 :: rat pyval]"
  let ?unset = "[''shift-frames'' \<mapsto> PyStr ''None'' :: rat pyval]"
  have a: "distinct (map fst shift_schema)"
    by (simp add: shift_schema_def)
  have b: "satisfies_constraints sample_builtins ''shift'' shift_schema ?st"
    by (simp add: satisfies_constraints_def satisfies_constraint_def eval_config)
  have c: "\<not> numeric_unset ''shift'' shift_schema ?st"
    by (simp add: numeric_unset_def eval_config)
  have d: "get_config_from_session_state sample_builtins ''shift'' shift_schema ?st
             = Inr [(''h'', PyFloat 2), (''frames'', PyInt 42)]"
    by (simp add: eval_config)
  have e: "satisfies_constraints sample_builtins ''shift'' shift_schema ?unset"
    by (simp add: satisfies_constraints_def satisfies_constraint_def eval_config)
  have f: "numeric_unset ''shift'' shift_schema ?unset"
    by (simp add: numeric_unset_def eval_config)
  from coercion_idempotent [OF b] a c d
  have twice: "get_config_from_session_state sample_builtins ''shift'' shift_schema
          (raw_of_config ''shift'' [(''h'', PyFloat 2), (''frames'', PyInt 42)])
        = Inr [(''h'', PyFloat 2), (''frames'', PyInt 42)]"
    by blast
  from coercion_idempotent [OF e]
  have unset: "\<exists>cfg. get_config_from_session_state sample_builtins ''shift'' shift_schema ?unset
                 = Inr cfg"
    by blast
  from a b c d e f twice unset show ?thesis by blast
qed

text \<open>
  The parameter \<open>frames\<close> of \<open>shift\<close> is an integer whose default is \<^verbatim>\<open>None\<close>. The
  raw value "None" satisfies its constraint and is coerced to \<^verbatim>\<open>None\<close>; coercing
  the result again fails with the \<^verbatim>\<open>TypeError\<close> of \<^verbatim>\<open>int(None)\<close>.
\<close>

theorem coercion_idempotent_counterexample:
  "distinct (map fst shift_schema)
   \<and> satisfies_constraints sample_builtins ''shift'' shift_schema
        [''shift-frames'' \<mapsto> PyStr ''None'']
   \<and> get_config_from_session_state sample_builtins ''shift'' shift_schema
        [''shift-frames'' \<mapsto> PyStr ''None''] = Inr [(''frames'', PyNone)]
   \<and> get_config_from_session_state sample_builtins ''shift'' shift_schema
        (raw_of_config ''shift'' [(''frames'', PyNone)])
       = Inl (Raised TypeError To_int PyNone)"
  by (simp add: satisfies_constraints_def satisfies_constraint_def raw_of_config_def eval_config)

section \<open>Properties of the memoized functions\<close>

subsection \<open>One call\<close>

lemma cached_hit:
  "entries s (key_of a) = Some v \<Longrightarrow> cached key_of body a s = (Inr v, s)"
  by (simp add: cached_def)

lemma cached_miss:
  assumes "entries s (key_of a) = None" and "cached key_of body a s = (r, s')"
  shows "r = body (length (runs s)) a \<and> runs s' = runs s @ [(key_of a, \<not> isl r)]"
proof (cases "body (length (runs s)) a")
  case (Inl e)
  with assms have "r = Inl e" "s' = s\<lparr> runs := runs s @ [(key_of a, False)] \<rparr>"
    by (simp_all add: cached_def)
  with Inl show ?thesis by simp
next
  case (Inr v)
  with assms have "r = Inr v"
    "s' = s\<lparr> entries := (entries s)(key_of a \<mapsto> v), runs := runs s @ [(key_of a, True)] \<rparr>"
    by (simp_all add: cached_def)
  with Inr show ?thesis by simp
qed

lemma cached_stores:
  "cached key_of body a s = (Inr v, s') \<Longrightarrow> entries s' (key_of a) = Some v"
  by (auto simp: cached_def split: option.splits sum.splits)

lemma cached_keeps:
  "entries s k' = Some v \<Longrightarrow> cached key_of body a s = (r, s') \<Longrightarrow> entries s' k' = Some v"
  by (auto simp: cached_def split: option.splits sum.splits)


lemma memo_ok_empty: "memo_ok empty_memo"
  by (simp add: memo_ok_def empty_memo_def)

lemma cached_memo_ok:
  assumes ok: "memo_ok s" and run: "cached key_of body a s = (r, s')"
  shows "memo_ok s'"
proof (cases "entries s (key_of a)")
  case (Some v)
  with run ok show ?thesis by (simp add: cached_def)
next
  case None
  with ok have fresh: "(key_of a, True) \<notin> set (runs s)"
    unfolding memo_ok_def by blast
  then have zero: "count_list (runs s) (key_of a, True) = 0"
    by (simp add: count_list_0_iff)
  show ?thesis
  proof (cases "body (length (runs s)) a")
    case (Inl e)
    with None run have "entries s' = entries s" "runs s' = runs s @ [(key_of a, False)]"
      by (auto simp: cached_def)
    with ok show ?thesis
      unfolding memo_ok_def by auto
  next
    case (Inr v)
    with None run have e: "entries s' = (entries s)(key_of a \<mapsto> v)"
      and r: "runs s' = runs s @ [(key_of a, True)]"
      by (auto simp: cached_def)
    show ?thesis
      unfolding memo_ok_def
    proof (intro allI conjI impI)
      fix k'
      assume "(k', True) \<in> set (runs s')"
      with ok e r show "entries s' k' \<noteq> None"
        unfolding memo_ok_def by auto
    next
      fix k'
      show "count_list (runs s') (k', True) \<le> 1"
        using ok zero r unfolding memo_ok_def by (cases "k' = key_of a") auto
    qed
  qed
qed

lemmas eval_memo =
  create_translation_model_def transcribe_def transcribe_body_def cached_def cache_key_def
  empty_memo_def sample_tools_create_def sample_subs_ai_def

subsection \<open>Transcription\<close>



subsection \<open>Translation models\<close>

lemma translation_model_calls_keep:
  "translation_model_calls tc names s = (rs, s') \<Longrightarrow> entries s k = Some t
     \<Longrightarrow> entries s' k = Some t \<and> (\<forall>j < length names. names ! j = k \<longrightarrow> rs ! j = Inr t)"
proof (induction names arbitrary: s rs s')
  case Nil
  then show ?case by simp
next
  case (Cons n names)
  obtain r s1 where first: "create_translation_model tc n s = (r, s1)"
    by (cases "create_translation_model tc n s")
  obtain rs' s2 where rest: "translation_model_calls tc names s1 = (rs', s2)"
    by (cases "translation_model_calls tc names s1")
  from Cons.prems(1) first rest have rs: "rs = r # rs'" and s': "s' = s2" by simp_all
  from first Cons.prems(2) have kept: "entries s1 k = Some t"
    by (auto simp: create_translation_model_def dest: cached_keeps)
  from Cons.IH [OF rest kept]
  have ih: "entries s2 k = Some t" "\<forall>j < length names. names ! j = k \<longrightarrow> rs' ! j = Inr t"
    by simp_all
  have "r = Inr t" if "n = k"
    using that first Cons.prems(2) by (simp add: create_translation_model_def cached_hit)
  with ih rs s' show ?case
    by (auto simp: nth_Cons split: nat.splits)
qed

lemma translation_model_calls_same:
  "translation_model_calls tc names s = (rs, s') \<Longrightarrow> i < j \<Longrightarrow> j < length names
     \<Longrightarrow> names ! i = names ! j \<Longrightarrow> rs ! i = Inr t \<Longrightarrow> rs ! j = Inr t"
proof (induction names arbitrary: s rs s' i j)
  case Nil
  then show ?case by simp
next
  case (Cons n names)
  obtain r s1 where first: "create_translation_model tc n s = (r, s1)"
    by (cases "create_translation_model tc n s")
  obtain rs' s2 where rest: "translation_model_calls tc names s1 = (rs', s2)"
    by (cases "translation_model_calls tc names s1")
  from Cons.prems(1) first rest have rs: "rs = r # rs'" by simp
  from Cons.prems(2) obtain j' where j: "j = Suc j'" by (cases j) auto
  show ?case
  proof (cases i)
    case 0
    with Cons.prems(5) rs have "r = Inr t" by simp
    with first have "entries s1 n = Some t"
      by (auto simp: create_translation_model_def dest: cached_stores)
    from translation_model_calls_keep [OF rest this] Cons.prems(3,4) 0 j
    have "rs' ! j' = Inr t" by simp
    with rs j show ?thesis by simp
  next
    case (Suc i')
    with Cons.prems rs j have "i' < j'" "j' < length names" "names ! i' = names ! j'"
      "rs' ! i' = Inr t" by simp_all
    from Cons.IH [OF rest this] rs j show ?thesis by simp
  qed
qed

lemma translation_model_calls_ok:
  "translation_model_calls tc names s = (rs, s') \<Longrightarrow> memo_ok s \<Longrightarrow> memo_ok s'"
proof (induction names arbitrary: s rs s')
  case Nil
  then show ?case by simp
next
  case (Cons n names)
  obtain r s1 where first: "create_translation_model tc n s = (r, s1)"
    by (cases "create_translation_model tc n s")
  obtain rs' s2 where rest: "translation_model_calls tc names s1 = (rs', s2)"
    by (cases "translation_model_calls tc names s1")
  from first Cons.prems(2) have "memo_ok s1"
    by (auto simp: create_translation_model_def dest: cached_memo_ok)
  from Cons.IH [OF rest this] Cons.prems(1) first rest show ?case by simp
qed

lemma cached_runs_grow:
  "cached key_of body a s = (r, s') \<Longrightarrow> \<exists>more. runs s' = runs s @ more"
  by (auto simp: cached_def split: option.splits sum.splits)

lemma cached_entry_origin:
  assumes "cached key_of body a s = (r, s')" and "entries s' k = Some t"
  shows "entries s k = Some t \<or> (entries s (key_of a) = None \<and> k = key_of a \<and> r = Inr t)"
  using assms by (auto simp: cached_def split: option.splits sum.splits if_splits)

lemma translation_model_calls_runs_grow:
  "translation_model_calls tc names s = (rs, s') \<Longrightarrow> \<exists>more. runs s' = runs s @ more"
proof (induction names arbitrary: s rs s')
  case Nil
  then show ?case by simp
next
  case (Cons n names)
  obtain r s1 where first: "create_translation_model tc n s = (r, s1)"
    by (cases "create_translation_model tc n s")
  obtain rs' s2 where rest: "translation_model_calls tc names s1 = (rs', s2)"
    by (cases "translation_model_calls tc names s1")
  from first obtain m1 where "runs s1 = runs s @ m1"
    by (auto simp: create_translation_model_def dest: cached_runs_grow)
  moreover from Cons.IH [OF rest] obtain m2 where "runs s2 = runs s1 @ m2" by blast
  moreover from Cons.prems first rest have "s' = s2" by simp
  ultimately show ?case by simp
qed

lemma translation_model_calls_length:
  "translation_model_calls tc names s = (rs, s') \<Longrightarrow> length rs = length names"
proof (induction names arbitrary: s rs s')
  case Nil
  then show ?case by simp
next
  case (Cons n names)
  then show ?case
    by (auto split: prod.splits)
qed

text \<open>An instance that a call returns was stored before the calls or built by a logged run.\<close>

lemma translation_model_calls_built:
  "translation_model_calls tc names s = (rs, s') \<Longrightarrow> j < length names \<Longrightarrow> rs ! j = Inr t
     \<Longrightarrow> entries s (names ! j) = Some t
         \<or> (\<exists>p. length (runs s) \<le> p \<and> p < length (runs s')
                \<and> runs s' ! p = (names ! j, True) \<and> tc p (names ! j) = Inr t)"
proof (induction names arbitrary: s rs s' j)
  case Nil
  then show ?case by simp
next
  case (Cons n names)
  obtain r s1 where first: "create_translation_model tc n s = (r, s1)"
    by (cases "create_translation_model tc n s")
  obtain rs' s2 where rest: "translation_model_calls tc names s1 = (rs', s2)"
    by (cases "translation_model_calls tc names s1")
  from Cons.prems(1) first rest have rs: "rs = r # rs'" and s': "s' = s2" by simp_all
  from first have c: "cached (\<lambda>name. name) tc n s = (r, s1)"
    by (simp add: create_translation_model_def)
  from translation_model_calls_runs_grow [OF rest] obtain m2 where m2: "runs s2 = runs s1 @ m2"
    by blast
  from cached_runs_grow [OF c] obtain m1 where m1: "runs s1 = runs s @ m1" by blast
  have logged: "\<exists>p. length (runs s) \<le> p \<and> p < length (runs s')
                \<and> runs s' ! p = (n, True) \<and> tc p n = Inr t"
    if miss: "entries s n = None" and res: "r = Inr t"
  proof -
    from cached_miss [OF _ c] miss res
    have "tc (length (runs s)) n = Inr t" "runs s1 = runs s @ [(n, True)]" by auto
    with m2 s' have "length (runs s) < length (runs s')"
      "runs s' ! length (runs s) = (n, True)"
      by (simp_all add: nth_append)
    with \<open>tc (length (runs s)) n = Inr t\<close> show ?thesis by blast
  qed
  show ?case
  proof (cases j)
    case 0
    with Cons.prems(3) rs have res: "r = Inr t" by simp
    show ?thesis
    proof (cases "entries s n")
      case None
      from logged [OF None res] 0 show ?thesis by simp
    next
      case (Some v)
      with c res have "v = t" by (simp add: cached_def)
      with Some 0 show ?thesis by simp
    qed
  next
    case (Suc j')
    with Cons.prems rs have j': "j' < length names" and res: "rs' ! j' = Inr t" by simp_all
    from Cons.IH [OF rest j' res]
    consider (stored) "entries s1 (names ! j') = Some t"
      | (built) p where "length (runs s1) \<le> p" "p < length (runs s2)"
          "runs s2 ! p = (names ! j', True)" "tc p (names ! j') = Inr t"
      by blast
    then show ?thesis
    proof cases
      case stored
      from cached_entry_origin [OF c stored]
      show ?thesis
      proof
        assume "entries s (names ! j') = Some t"
        with Suc show ?thesis by simp
      next
        assume "entries s n = None \<and> names ! j' = n \<and> r = Inr t"
        with logged Suc show ?thesis by simp
      qed
    next
      case built
      with m1 s' Suc show ?thesis by auto
    qed
  qed
qed

text \<open>A run that the calls logged is the run of one of them, which returns its result.\<close>

lemma translation_model_calls_logged:
  "translation_model_calls tc names s = (rs, s') \<Longrightarrow> length (runs s) \<le> p
     \<Longrightarrow> p < length (runs s')
     \<Longrightarrow> \<exists>j < length names. runs s' ! p = (names ! j, \<not> isl (rs ! j)) \<and> rs ! j = tc p (names ! j)"
proof (induction names arbitrary: s rs s')
  case Nil
  then show ?case by simp
next
  case (Cons n names)
  obtain r s1 where first: "create_translation_model tc n s = (r, s1)"
    by (cases "create_translation_model tc n s")
  obtain rs' s2 where rest: "translation_model_calls tc names s1 = (rs', s2)"
    by (cases "translation_model_calls tc names s1")
  from Cons.prems(1) first rest have rs: "rs = r # rs'" and s': "s' = s2" by simp_all
  from first have c: "cached (\<lambda>name. name) tc n s = (r, s1)"
    by (simp add: create_translation_model_def)
  from translation_model_calls_runs_grow [OF rest] obtain m2 where m2: "runs s2 = runs s1 @ m2"
    by blast
  show ?case
  proof (cases "length (runs s1) \<le> p")
    case True
    from Cons.IH [OF rest True] Cons.prems(3) s'
    obtain j where "j < length names"
      "runs s2 ! p = (names ! j, \<not> isl (rs' ! j))" "rs' ! j = tc p (names ! j)"
      by blast
    with rs s' have "Suc j < length (n # names)
        \<and> runs s' ! p = ((n # names) ! Suc j, \<not> isl (rs ! Suc j))
        \<and> rs ! Suc j = tc p ((n # names) ! Suc j)"
      by simp
    then show ?thesis by blast
  next
    case False
    have miss: "entries s n = None"
    proof (rule ccontr)
      assume "entries s n \<noteq> None"
      then obtain v where "entries s n = Some v" by blast
      with c have "s1 = s" by (simp add: cached_def)
      with False Cons.prems(2) show False by simp
    qed
    from cached_miss [OF _ c] miss
    have r: "r = tc (length (runs s)) n" and log: "runs s1 = runs s @ [(n, \<not> isl r)]"
      by auto
    from False Cons.prems(2) log have p: "p = length (runs s)" by simp
    with log m2 s' have "runs s' ! p = (n, \<not> isl r)"
      by (simp add: nth_append)
    with r p rs have "0 < length (n # names)
        \<and> runs s' ! p = ((n # names) ! 0, \<not> isl (rs ! 0))
        \<and> rs ! 0 = tc p ((n # names) ! 0)"
      by simp
    then show ?thesis by blast
  qed
qed

text \<open>
  C9. In every sequence of calls of the translation-model accessor, starting with the
  empty cache: a call returns the instance that any earlier call with the same
  identifier returned (so all calls after the first successful one return its
  instance); for each identifier the backend is built successfully at most once;
  every instance that a call returns is the product of a logged run of the builder for
  that identifier; and every logged run of the builder is the run of one of the calls,
  which returns the result of that run.
\<close>

theorem translation_model_memoized:
  assumes "translation_model_calls tools_create names empty_memo = (rs, s)"
  shows "(\<forall>i j t. i < j \<and> j < length names \<and> names ! i = names ! j \<and> rs ! i = Inr t
            \<longrightarrow> rs ! j = Inr t)
       \<and> (\<forall>model_name. count_list (runs s) (model_name, True) \<le> 1)
       \<and> (\<forall>j t. j < length names \<and> rs ! j = Inr t
            \<longrightarrow> (\<exists>p < length (runs s). runs s ! p = (names ! j, True)
                     \<and> tools_create p (names ! j) = Inr t))
       \<and> (\<forall>p < length (runs s). \<exists>j < length names.
             runs s ! p = (names ! j, \<not> isl (rs ! j)) \<and> rs ! j = tools_create p (names ! j))"
proof -
  have same: "rs ! j = Inr t"
    if "i < j" "j < length names" "names ! i = names ! j" "rs ! i = Inr t" for i j t
    using translation_model_calls_same [OF assms that] .
  from translation_model_calls_ok [OF assms memo_ok_empty]
  have once: "count_list (runs s) (model_name, True) \<le> 1" for model_name
    unfolding memo_ok_def by blast
  have built: "\<exists>p < length (runs s). runs s ! p = (names ! j, True)
                 \<and> tools_create p (names ! j) = Inr t"
    if "j < length names" "rs ! j = Inr t" for j t
    using translation_model_calls_built [OF assms that]
    by (auto simp: empty_memo_def)
  have logged: "\<exists>j < length names.
      runs s ! p = (names ! j, \<not> isl (rs ! j)) \<and> rs ! j = tools_create p (names ! j)"
    if "p < length (runs s)" for p
    using translation_model_calls_logged [OF assms _ that]
    by (simp add: empty_memo_def)
  from same once built logged show ?thesis by blast
qed

text \<open>
  Three calls with the sample builder, whose instances differ from run to run: the
  third call returns the instance of the first, which the run number 0 built, and
  the two runs that are logged are those of the first and the second call.
\<close>

theorem translation_model_memoized_witness:
  "translation_model_calls sample_tools_create [''m2m100'', ''mbart'', ''m2m100''] empty_memo
     = ([Inr (''m2m100'', 0), Inr (''mbart'', 1), Inr (''m2m100'', 0)],
        snd (translation_model_calls sample_tools_create [''m2m100'', ''mbart'', ''m2m100'']
               empty_memo))
   \<and> [Inr (''m2m100'', 0), Inr (''mbart'', 1), Inr (''m2m100'', 0) :: string + string \<times> nat] ! 2
       = Inr (''m2m100'', 0)
   \<and> count_list
        (runs (snd (translation_model_calls sample_tools_create [''m2m100'', ''mbart'', ''m2m100'']
                      empty_memo)))
        (''m2m100'', True) \<le> 1
   \<and> (\<exists>p < length (runs (snd (translation_model_calls sample_tools_create
                                 [''m2m100'', ''mbart'', ''m2m100''] empty_memo))).
         runs (snd (translation_model_calls sample_tools_create
                      [''m2m100'', ''mbart'', ''m2m100''] empty_memo)) ! p = (''m2m100'', True)
         \<and> sample_tools_create p ''m2m100'' = Inr (''m2m100'', 0))
   \<and> runs (snd (translation_model_calls sample_tools_create [''m2m100'', ''mbart'', ''m2m100'']
                   empty_memo))
       = [(''m2m100'', True), (''mbart'', True)]"
proof -
  let ?names = "[''m2m100'', ''mbart'', ''m2m100'']"
  let ?rs = "[Inr (''m2m100'', 0), Inr (''mbart'', 1), Inr (''m2m100'', 0) :: string + string \<times> nat]"
  let ?s = "snd (translation_model_calls sample_tools_create ?names empty_memo)"
  have a: "translation_model_calls sample_tools_create ?names empty_memo = (?rs, ?s)"
    by (simp add: eval_memo)
  have log: "runs ?s = [(''m2m100'', True), (''mbart'', True)]"
    by (simp add: eval_memo)
  from translation_model_memoized [OF a] have
    same: "(0::nat) < 2 \<and> 2 < length ?names \<and> ?names ! 0 = ?names ! 2
             \<and> ?rs ! 0 = Inr (''m2m100'', 0)
           \<longrightarrow> ?rs ! 2 = Inr (''m2m100'', 0)"
    and once: "count_list (runs ?s) (''m2m100'', True) \<le> 1"
    and built: "2 < length ?names \<and> ?rs ! 2 = Inr (''m2m100'', 0)
           \<longrightarrow> (\<exists>p < length (runs ?s). runs ?s ! p = (?names ! 2, True)
                    \<and> sample_tools_create p (?names ! 2) = Inr (''m2m100'', 0))"
    by blast+
  from same have third: "?rs ! 2 = Inr (''m2m100'', 0)" by simp
  from built have "\<exists>p < length (runs ?s). runs ?s ! p = (''m2m100'', True)
                    \<and> sample_tools_create p ''m2m100'' = Inr (''m2m100'', 0)"
    by simp
  with a third once log show ?thesis by blast
qed

section \<open>Properties of the subtitles of a session\<close>

lemmas eval_session =
  sample_session_def sample_subs_def sample_google_translate_def session_ok_def
  active_subs_def backup_subs_def translate_clicked_def reload_clicked_def
  edit_selected_row_def py_index_def only_text_changed_def

subsection \<open>The handlers keep every reference inside the store\<close>

lemma translate_clicked_ok:
  "session_ok s \<Longrightarrow> translate_clicked g l s = (n, s') \<Longrightarrow> session_ok s'"
  by (auto simp: translate_clicked_def session_ok_def split: option.splits sum.splits)

lemma reload_clicked_ok: "session_ok s \<Longrightarrow> reload_clicked s = (n, s') \<Longrightarrow> session_ok s'"
  by (auto simp: reload_clicked_def session_ok_def split: option.splits)

lemma edit_selected_row_ok:
  "session_ok s \<Longrightarrow> edit_selected_row i t s = (n, s') \<Longrightarrow> session_ok s'"
  by (auto simp: edit_selected_row_def session_ok_def Let_def split: option.splits)

subsection \<open>Translation and reload\<close>

text \<open>
  C7. For every session that holds a transcribed subtitle file \<open>D\<close>: a translation
  makes the translated file the active one and keeps \<open>D\<close> as the original, and a
  reload of the original after it makes \<open>D\<close> the active file again.
\<close>

theorem translate_then_reload:
  assumes "session_ok s"
      and "active_subs s = Some D"
      and "google_translate D target_language = Inr T"
      and "translate_clicked google_translate target_language s = (n1, s1)"
      and "reload_clicked s1 = (n2, s2)"
  shows "n1 = Success \<and> active_subs s1 = Some T \<and> backup_subs s1 = Some D
       \<and> n2 = Quiet \<and> active_subs s2 = Some D \<and> backup_subs s2 = Some D"
proof -
  from assms(2) obtain r where r: "transcribed_subs s = Some r" and D: "objects s ! r = D"
    by (auto simp: active_subs_def)
  from assms(1) r have valid: "r < length (objects s)"
    by (simp add: session_ok_def)
  from assms(3,4) r D have n1: "n1 = Success"
    and s1: "s1 = s\<lparr> objects := objects s @ [T], original_subs := Some r,
                      transcribed_subs := Some (length (objects s)) \<rparr>"
    by (simp_all add: translate_clicked_def)
  from assms(5) s1 have n2: "n2 = Quiet" and s2: "s2 = s1\<lparr> transcribed_subs := Some r \<rparr>"
    by (simp_all add: reload_clicked_def)
  from s1 have "active_subs s1 = Some T"
    by (simp add: active_subs_def)
  moreover from s1 valid D have "backup_subs s1 = Some D"
    by (simp add: backup_subs_def nth_append)
  moreover from s1 s2 valid D have "active_subs s2 = Some D" "backup_subs s2 = Some D"
    by (simp_all add: active_subs_def backup_subs_def nth_append)
  ultimately show ?thesis using n1 n2 by simp
qed

theorem translate_then_reload_witness:
  "session_ok sample_session
   \<and> active_subs sample_session = Some sample_subs
   \<and> sample_google_translate sample_subs ''ja''
       = Inr [\<lparr> ev_start = 0, ev_end = 1500, ev_text = ''ja:hello'' \<rparr>,
              \<lparr> ev_start = 1500, ev_end = 4000, ev_text = ''ja:world'' \<rparr>]
   \<and> fst (translate_clicked sample_google_translate ''ja'' sample_session) = Success
   \<and> active_subs (snd (translate_clicked sample_google_translate ''ja'' sample_session))
       = Some [\<lparr> ev_start = 0, ev_end = 1500, ev_text = ''ja:hello'' \<rparr>,
               \<lparr> ev_start = 1500, ev_end = 4000, ev_text = ''ja:world'' \<rparr>]
   \<and> backup_subs (snd (translate_clicked sample_google_translate ''ja'' sample_session))
       = Some sample_subs
   \<and> active_subs
        (snd (reload_clicked (snd (translate_clicked sample_google_translate ''ja'' sample_session))))
       = Some sample_subs"
proof -
  let ?T = "[\<lparr> ev_start = 0, ev_end = 1500, ev_text = ''ja:hello'' \<rparr>,
             \<lparr> ev_start = 1500, ev_end = 4000, ev_text = ''ja:world'' \<rparr>]"
  let ?s1 = "snd (translate_clicked sample_google_translate ''ja'' sample_session)"
  have a: "session_ok sample_session"
    by (simp add: eval_session)
  have b: "active_subs sample_session = Some sample_subs"
    by (simp add: sample_session_def active_subs_def)
  have c: "sample_google_translate sample_subs ''ja'' = Inr ?T"
    by (simp add: sample_subs_def sample_google_translate_def)
  have d: "translate_clicked sample_google_translate ''ja'' sample_session
             = (fst (translate_clicked sample_google_translate ''ja'' sample_session), ?s1)"
    by simp
  have e: "reload_clicked ?s1 = (fst (reload_clicked ?s1), snd (reload_clicked ?s1))"
    by simp
  from translate_then_reload [OF a b c d e] a b c show ?thesis by simp
qed

text \<open>
  An edit of the active file between the translation and the reload works on another
  object than the original, which it leaves as it is.
\<close>

lemma edit_keeps_backup:
  assumes "transcribed_subs s = Some r" and "original_subs s = Some b" and "b \<noteq> r"
      and "edit_selected_row i t s = (n, s')"
  shows "backup_subs s' = backup_subs s"
  using assms
  by (auto simp: edit_selected_row_def backup_subs_def Let_def split: option.splits)

subsection \<open>Editing the text of a row\<close>

lemma only_text_changed_update:
  "j < length subs \<Longrightarrow> only_text_changed subs j t (subs[j := (subs ! j)\<lparr> ev_text := t \<rparr>])"
  by (auto simp: only_text_changed_def nth_list_update)

text \<open>
  C8. For every session that holds a subtitle file and every index: when the index is
  within the bounds of the file, the edit replaces the text of the event at that index
  and nothing else (the start and end times of every event and the texts of all other
  events are as before); when it is out of bounds, the edit fails and the file is not
  modified. The bounds are those of Python's indexing: an index from 0 up to the
  length, or a negative index down to minus the length, which counts from the end.
\<close>

theorem edit_selected_row_frame:
  assumes "session_ok s"
      and "active_subs s = Some subs"
      and "edit_selected_row i new_text s = (n, s')"
  shows "(0 \<le> i \<and> i < int (length subs) \<longrightarrow>
            n = Quiet \<and> (\<exists>subs'. active_subs s' = Some subs'
                          \<and> only_text_changed subs (nat i) new_text subs'))
       \<and> (- int (length subs) \<le> i \<and> i < 0 \<longrightarrow>
            n = Quiet \<and> (\<exists>subs'. active_subs s' = Some subs'
                          \<and> only_text_changed subs (nat (int (length subs) + i)) new_text subs'))
       \<and> (i < - int (length subs) \<or> int (length subs) \<le> i \<longrightarrow>
            n = Error_parsing_subs \<and> active_subs s' = Some subs \<and> objects s' = objects s)"
proof -
  from assms(2) obtain r where r: "transcribed_subs s = Some r" and D: "objects s ! r = subs"
    by (auto simp: active_subs_def)
  from assms(1) r have valid: "r < length (objects s)"
    by (simp add: session_ok_def)
  have edited: "n = Quiet \<and> (\<exists>subs'. active_subs s' = Some subs' \<and> only_text_changed subs j new_text subs')"
    if "py_index (length subs) i = Some j" for j
  proof -
    from that have j: "j < length subs"
      by (auto simp: py_index_def split: if_splits)
    from assms(3) r D that have "n = Quiet"
      and "s' = s\<lparr> selected_row_idx := Some i,
                    objects := (objects s)[r := subs[j := (subs ! j)\<lparr> ev_text := new_text \<rparr>]] \<rparr>"
      by (simp_all add: edit_selected_row_def Let_def)
    with r valid have "active_subs s' = Some (subs[j := (subs ! j)\<lparr> ev_text := new_text \<rparr>])"
      by (simp add: active_subs_def)
    with only_text_changed_update [OF j] \<open>n = Quiet\<close> show ?thesis by blast
  qed
  have failed: "n = Error_parsing_subs \<and> active_subs s' = Some subs \<and> objects s' = objects s"
    if "py_index (length subs) i = None"
  proof -
    from assms(3) r D that have "n = Error_parsing_subs" and "s' = s\<lparr> selected_row_idx := Some i \<rparr>"
      by (simp_all add: edit_selected_row_def Let_def)
    with r D show ?thesis by (simp add: active_subs_def)
  qed
  have "py_index (length subs) i = Some (nat i)" if "0 \<le> i \<and> i < int (length subs)"
    using that by (simp add: py_index_def)
  moreover have "py_index (length subs) i = Some (nat (int (length subs) + i))"
    if "- int (length subs) \<le> i \<and> i < 0"
    using that by (simp add: py_index_def)
  moreover have "py_index (length subs) i = None"
    if "i < - int (length subs) \<or> int (length subs) \<le> i"
    using that by (auto simp: py_index_def)
  ultimately show ?thesis using edited failed by blast
qed

theorem edit_selected_row_frame_witness:
  "session_ok sample_session
   \<and> active_subs sample_session = Some sample_subs
   \<and> fst (edit_selected_row 1 ''there'' sample_session) = Quiet
   \<and> active_subs (snd (edit_selected_row 1 ''there'' sample_session))
       = Some [\<lparr> ev_start = 0, ev_end = 1500, ev_text = ''hello'' \<rparr>,
               \<lparr> ev_start = 1500, ev_end = 4000, ev_text = ''there'' \<rparr>]
   \<and> fst (edit_selected_row 2 ''there'' sample_session) = Error_parsing_subs
   \<and> active_subs (snd (edit_selected_row 2 ''there'' sample_session)) = Some sample_subs"
proof -
  have a: "session_ok sample_session"
    by (simp add: eval_session)
  have b: "active_subs sample_session = Some sample_subs"
    by (simp add: sample_session_def active_subs_def)
  have len: "length sample_subs = 2"
    by (simp add: sample_subs_def)
  have c1: "edit_selected_row 1 ''there'' sample_session
              = (fst (edit_selected_row 1 ''there'' sample_session),
                 snd (edit_selected_row 1 ''there'' sample_session))"
    by simp
  have c2: "edit_selected_row 2 ''there'' sample_session
              = (fst (edit_selected_row 2 ''there'' sample_session),
                 snd (edit_selected_row 2 ''there'' sample_session))"
    by simp
  from edit_selected_row_frame [OF a b c1] len
  have one: "fst (edit_selected_row 1 ''there'' sample_session) = Quiet"
    by simp
  from edit_selected_row_frame [OF a b c2] len
  have two: "fst (edit_selected_row 2 ''there'' sample_session) = Error_parsing_subs"
    "active_subs (snd (edit_selected_row 2 ''there'' sample_session)) = Some sample_subs"
    by simp_all
  have "active_subs (snd (edit_selected_row 1 ''there'' sample_session))
       = Some [\<lparr> ev_start = 0, ev_end = 1500, ev_text = ''hello'' \<rparr>,
               \<lparr> ev_start = 1500, ev_end = 4000, ev_text = ''there'' \<rparr>]"
    by (simp add: eval_session)
  with a b one two show ?thesis by blast
qed

end
